theory Spec2Isabelle
  imports Complex_Main "HOL-Library.Word" "HOL-Library.Log_Nat" "HOL-Library.Sublist"
begin

section \<open>JavaScript values used by \<^verbatim>\<open>index.js\<close>\<close>

subsection \<open>Strings\<close>

text \<open>
  A JavaScript string is a sequence of UTF-16 code units. String literals of the source
  are written \<open>str ''...''\<close>; \<open>===\<close> on strings is equality of the sequences.
\<close>

type_synonym jsstring = "16 word list"

definition str :: "string \<Rightarrow> jsstring" where
  "str s = map of_char s"

text \<open>\<^verbatim>\<open>!!s\<close> for a value that is a string, \<^verbatim>\<open>null\<close> or \<^verbatim>\<open>undefined\<close>
  (\<open>None\<close>): only a non-empty string is truthy.\<close>

definition truthy_string :: "jsstring option \<Rightarrow> bool" where
  "truthy_string v = (case v of None \<Rightarrow> False | Some s \<Rightarrow> s \<noteq> [])"

text \<open>\<^verbatim>\<open>array.includes(x)\<close> on an array of strings.\<close>

definition array_includes :: "jsstring list \<Rightarrow> jsstring \<Rightarrow> bool" where
  "array_includes xs x \<longleftrightarrow> x \<in> set xs"

subsection \<open>Numbers\<close>

text \<open>
  A JavaScript number is an IEEE 754 double. The finite ones are modelled by their exact
  rational value; \<open>fl\<close> rounds a rational to the nearest number with a 53-bit
  significand, ties to even, and \<open>to_number\<close> adds the overflow to an infinity.
  Two things are left out because no expression of the program can observe them: the
  sign of zero (\<open>-0\<close> is falsy and compares like \<open>0\<close>) and gradual underflow (every
  quotient the program forms is zero or at least \<open>1 / (1000 * 2592000)\<close> in magnitude).
\<close>

datatype jsnumber = NaN | NegInfinity | Num rat | Infinity

text \<open>For \<open>x \<noteq> 0\<close>, the exponent \<open>e\<close> with \<open>2 powi e \<le> \<bar>x\<bar> < 2 powi (e + 1)\<close>.\<close>

definition binade :: "rat \<Rightarrow> int" where
  "binade x = (case quotient_of \<bar>x\<bar> of (p, q) \<Rightarrow>
     let k = bitlen p - bitlen q
     in if 2 powi k \<le> \<bar>x\<bar> then k else k - 1)"

definition roundTiesToEven :: "rat \<Rightarrow> int" where
  "roundTiesToEven x = (let n = \<lfloor>x\<rfloor>; r = x - of_int n
     in if r < 1 / 2 then n else if 1 / 2 < r then n + 1 else if even n then n else n + 1)"

definition fl :: "rat \<Rightarrow> rat" where
  "fl x = (if x = 0 then 0
     else let u = 2 powi (binade x - 52) in of_int (roundTiesToEven (x / u)) * u)"

definition to_number :: "rat \<Rightarrow> jsnumber" where
  "to_number x = (let y = fl x
     in if 2 ^ 1024 \<le> y then Infinity else if y \<le> - (2 ^ 1024) then NegInfinity else Num y)"

text \<open>The rationals with a significand of at most 53 bits: \<open>fl\<close> rounds to the nearest
  of them.\<close>

definition representable :: "rat \<Rightarrow> bool" where
  "representable y \<longleftrightarrow> (\<exists>(m::int) (e::int). \<bar>m\<bar> \<le> 2 ^ 53 \<and> y = of_int m * 2 powi e)"

text \<open>\<^verbatim>\<open>x - y\<close>.\<close>

fun js_sub :: "jsnumber \<Rightarrow> jsnumber \<Rightarrow> jsnumber" where
  "js_sub NaN y = NaN"
| "js_sub x NaN = NaN"
| "js_sub (Num a) (Num b) = to_number (a - b)"
| "js_sub (Num a) Infinity = NegInfinity"
| "js_sub (Num a) NegInfinity = Infinity"
| "js_sub Infinity Infinity = NaN"
| "js_sub Infinity y = Infinity"
| "js_sub NegInfinity NegInfinity = NaN"
| "js_sub NegInfinity y = NegInfinity"

text \<open>\<^verbatim>\<open>x / c\<close> for a numeric literal \<open>c > 0\<close> of the source (\<open>1000\<close> and
  \<open>MONTH_IN_SECONDS\<close>).\<close>

fun js_div :: "jsnumber \<Rightarrow> rat \<Rightarrow> jsnumber" where
  "js_div NaN c = NaN"
| "js_div Infinity c = Infinity"
| "js_div NegInfinity c = NegInfinity"
| "js_div (Num a) c = to_number (a / c)"

text \<open>\<^verbatim>\<open>x >= y\<close>: false as soon as one side is \<open>NaN\<close>.\<close>

fun js_ge :: "jsnumber \<Rightarrow> jsnumber \<Rightarrow> bool" where
  "js_ge NaN y = False"
| "js_ge x NaN = False"
| "js_ge (Num a) (Num b) = (b \<le> a)"
| "js_ge x NegInfinity = True"
| "js_ge Infinity y = True"
| "js_ge (Num a) Infinity = False"
| "js_ge NegInfinity y = False"

text \<open>\<^verbatim>\<open>x || d\<close> on numbers: \<open>NaN\<close> and zero are falsy.\<close>

definition truthy_number :: "jsnumber \<Rightarrow> bool" where
  "truthy_number x = (x \<noteq> NaN \<and> x \<noteq> Num 0)"

definition js_or :: "jsnumber \<Rightarrow> jsnumber \<Rightarrow> jsnumber" where
  "js_or x d = (if truthy_number x then x else d)"

subsection \<open>\<^verbatim>\<open>parseInt(string, 10)\<close>\<close>

text \<open>
  ECMAScript's \<^verbatim>\<open>parseInt\<close> with radix 10: the argument is converted to a string
  (\<^verbatim>\<open>undefined\<close> becomes the string \<open>undefined\<close>), leading white space is trimmed, a
  sign is read, and the longest prefix of decimal digits is the value; no digit at all
  gives \<open>NaN\<close>. The value is converted to a number by rounding. (The standard lets an
  implementation replace the digits after the 20th by zeros; the model keeps them.)
\<close>

definition StrWhiteSpaceChar :: "16 word \<Rightarrow> bool" where
  "StrWhiteSpaceChar c \<longleftrightarrow>
     c \<in> set [0x9, 0xA, 0xB, 0xC, 0xD, 0x20, 0xA0, 0x1680, 0x2028, 0x2029, 0x202F,
       0x205F, 0x3000, 0xFEFF] \<or> (0x2000 \<le> c \<and> c \<le> 0x200A)"

definition is_digit :: "16 word \<Rightarrow> bool" where
  "is_digit c \<longleftrightarrow> 0x30 \<le> c \<and> c \<le> 0x39"

fun mathInt :: "int \<Rightarrow> jsstring \<Rightarrow> int" where
  "mathInt acc [] = acc"
| "mathInt acc (c # cs) = mathInt (10 * acc + (uint c - 48)) cs"

definition ToString :: "jsstring option \<Rightarrow> jsstring" where
  "ToString v = (case v of None \<Rightarrow> str ''undefined'' | Some s \<Rightarrow> s)"

definition parseInt :: "jsstring option \<Rightarrow> jsnumber" where
  "parseInt string =
     (let inputString = ToString string;
          S = dropWhile StrWhiteSpaceChar inputString;
          sign = (if S \<noteq> [] \<and> hd S = 0x2D then - 1 else 1 :: int);
          S' = (if S \<noteq> [] \<and> (hd S = 0x2B \<or> hd S = 0x2D) then tl S else S);
          Z = takeWhile is_digit S'
      in if Z = [] then NaN else to_number (of_int (sign * mathInt 0 Z)))"

text \<open>The decimal digits that \<open>parseInt\<close> reads from its argument: the \<open>Z\<close> of its
  definition.\<close>

definition parsed_digits :: "jsstring option \<Rightarrow> jsstring" where
  "parsed_digits string =
     (let S = dropWhile StrWhiteSpaceChar (ToString string);
          S' = (if S \<noteq> [] \<and> (hd S = 0x2B \<or> hd S = 0x2D) then tl S else S)
      in takeWhile is_digit S')"

section \<open>Data model\<close>

text \<open>A pull request as \<^verbatim>\<open>github.rest.pulls.list\<close> returns it: the fields the
  program reads (\<^verbatim>\<open>pr.head.ref\<close> is \<open>head_ref\<close>, \<^verbatim>\<open>pr.base.ref\<close> is \<open>base_ref\<close>;
  \<^verbatim>\<open>merged_at\<close> is \<^verbatim>\<open>null\<close> for a pull request that was closed without a merge).\<close>

record pull_request =
  pr_state :: jsstring
  pr_number :: int
  pr_title :: jsstring
  pr_html_url :: jsstring
  pr_merged_at :: "jsstring option"
  head_ref :: jsstring
  base_ref :: jsstring

text \<open>The \<^verbatim>\<open>data\<close> of a \<^verbatim>\<open>getBranch\<close> response; the program reads its
  \<^verbatim>\<open>message\<close> only.\<close>

record branch_info =
  message :: "jsstring option"

text \<open>An element of \<^verbatim>\<open>mergedPRs\<close>.\<close>

record candidate =
  state :: jsstring
  number :: int
  title :: jsstring
  age :: jsnumber
  html_url :: jsstring
  branch_name :: jsstring
  base_branch_name :: jsstring
  merged_at :: "jsstring option"

record base_config =
  owner :: "jsstring option"
  repo :: "jsstring option"

record list_config = base_config +
  cfg_state :: jsstring
  cfg_sort :: jsstring
  cfg_direction :: jsstring
  page :: nat
  per_page :: jsnumber

record branch_args = base_config +
  branch :: jsstring

record ref_args = base_config +
  ref :: jsstring

subsection \<open>The world outside the program\<close>

text \<open>
  An awaited call either throws (\<open>Rejected\<close>) or yields a value. The GitHub client and
  the clock are functions on a state \<open>'w\<close> of the outside world, about which nothing is
  assumed; \<^verbatim>\<open>Date.parse\<close> is a function of its argument (\<open>None\<close> is \<open>NaN\<close>, otherwise
  milliseconds since the epoch).
\<close>

datatype 'a settled = Rejected | Fulfilled 'a

record 'w runtime =
  pulls_list :: "list_config \<Rightarrow> 'w \<Rightarrow> pull_request list option settled \<times> 'w"
  getBranch :: "branch_args \<Rightarrow> 'w \<Rightarrow> branch_info option settled \<times> 'w"
  deleteRef :: "ref_args \<Rightarrow> 'w \<Rightarrow> unit settled \<times> 'w"
  Date_now :: "'w \<Rightarrow> int \<times> 'w"
  Date_parse :: "jsstring \<Rightarrow> int option"

subsection \<open>What a run does, in order\<close>

text \<open>One constructor for each \<^verbatim>\<open>console.log\<close> of the source, with the values it
  interpolates.\<close>

datatype log_line =
    Missing_env_vars
  | Unsupported_mode
  | Mode_selected jsstring
  | Exiting_safe
  | No_turning_back
  | Page_getting nat
  | No_more_PRs
  | Branch_not_found
  | Max_reached jsnumber
  | Processed nat
  | Got nat
  | Exiting
  | Just_logging
  | Attempting jsstring
  | Done_line
  | Delete_failed jsstring jsstring
  | Months_old int jsnumber

text \<open>The trace of a run: log lines, prompts, \<^verbatim>\<open>rl.close()\<close>, each call of the
  GitHub client with what it returned, and the write of the result file with the list
  that is serialized.\<close>

datatype event =
    Log log_line
  | Question string
  | Close
  | Pulls_list list_config "pull_request list option settled"
  | Get_branch branch_args "branch_info option settled"
  | Delete_ref ref_args "unit settled"
  | Write_file jsstring "candidate list"

type_synonym 'w st = "'w \<times> event list"

definition emit :: "event list \<Rightarrow> 'w st \<Rightarrow> 'w st" where
  "emit es s = (fst s, snd s @ es)"

text \<open>How the process ends: \<^verbatim>\<open>process.exit(code)\<close>, the end of the script with
  nothing left to wait for, an exception thrown inside the asynchronous callback, or
  (in the model only) a discovery loop that has not ended after the given number of
  pages.\<close>

datatype outcome = Process_exit "nat option" | Completed | Unhandled_rejection | Still_discovering

text \<open>\<^verbatim>\<open>process.exit()\<close> without a code exits with \<^verbatim>\<open>process.exitCode\<close>, which
  the program never sets: 0. What an unhandled rejection exits with depends on the
  version of the runtime.\<close>

fun exit_code :: "outcome \<Rightarrow> nat option" where
  "exit_code (Process_exit (Some n)) = Some n"
| "exit_code (Process_exit None) = Some 0"
| "exit_code Completed = Some 0"
| "exit_code Unhandled_rejection = None"
| "exit_code Still_discovering = None"

section \<open>The program\<close>

definition requiredEnvVars :: "jsstring list" where
  "requiredEnvVars = [str ''OWNER'', str ''REPO'', str ''GITHUB_TOKEN'']"

definition allRequiredVarsPresent :: "(jsstring \<Rightarrow> jsstring option) \<Rightarrow> bool" where
  "allRequiredVarsPresent env = list_all (\<lambda>envVar. truthy_string (env envVar)) requiredEnvVars"

definition FORBIDDEN_HEAD_REFS :: "jsstring list" where
  "FORBIDDEN_HEAD_REFS = [str ''master'', str ''staging'']"

definition ALLOWED_BASE_REFS :: "jsstring list" where
  "ALLOWED_BASE_REFS = [str ''master'']"

definition MONTH_IN_SECONDS :: rat where
  "MONTH_IN_SECONDS = 2592000"

definition AGE_IN_MONTHS :: "(jsstring \<Rightarrow> jsstring option) \<Rightarrow> jsnumber" where
  "AGE_IN_MONTHS env = js_or (parseInt (env (str ''AGE_IN_MONTHS''))) (Num 3)"

definition MAX_COUNT :: "(jsstring \<Rightarrow> jsstring option) \<Rightarrow> jsnumber" where
  "MAX_COUNT env = js_or (parseInt (env (str ''MAX_COUNT''))) (Num 100)"

definition PER_PAGE_COUNT :: "(jsstring \<Rightarrow> jsstring option) \<Rightarrow> jsnumber" where
  "PER_PAGE_COUNT env = js_or (parseInt (env (str ''PER_PAGE_COUNT''))) (Num 30)"

subsection \<open>One page through the filters (lines 97 to 146)\<close>

text \<open>The first \<^verbatim>\<open>filter\<close>: merged, head not forbidden, base allowed.\<close>

definition local_ok :: "pull_request \<Rightarrow> bool" where
  "local_ok pr \<longleftrightarrow> truthy_string (pr_merged_at pr)
     \<and> \<not> array_includes FORBIDDEN_HEAD_REFS (head_ref pr)
     \<and> array_includes ALLOWED_BASE_REFS (base_ref pr)"

text \<open>The asynchronous \<^verbatim>\<open>map\<close> callback: the pull request with its
  \<^verbatim>\<open>branchInfo\<close>; the \<^verbatim>\<open>catch\<close> turns a failed lookup into the marker
  \<^verbatim>\<open>{ message: 'Branch not found' }\<close>.\<close>

definition lookup ::
  "'w runtime \<Rightarrow> base_config \<Rightarrow> pull_request \<Rightarrow> 'w st \<Rightarrow> (pull_request \<times> branch_info option) \<times> 'w st"
where
  "lookup rt baseConfig pr s =
     (let args = \<lparr>owner = owner baseConfig, repo = repo baseConfig, branch = head_ref pr\<rparr>;
          (r, w') = getBranch rt args (fst s);
          s' = (w', snd s @ [Get_branch args r])
      in case r of
           Fulfilled branchInfo \<Rightarrow> ((pr, branchInfo), s')
         | Rejected \<Rightarrow> ((pr, Some \<lparr>message = Some (str ''Branch not found'')\<rparr>), s'))"

text \<open>
  \<^verbatim>\<open>Promise.all(xs.map(f))\<close> and \<^verbatim>\<open>xs.map(f)\<close> for a callback with effects: the
  callbacks start in the order of the array and the results keep that order. The
  lookups of one page are in flight together; since nothing is assumed about how the
  world answers, threading its state through them in that order loses no behaviour.
\<close>

fun map_st :: "('a \<Rightarrow> 's \<Rightarrow> 'b \<times> 's) \<Rightarrow> 'a list \<Rightarrow> 's \<Rightarrow> 'b list \<times> 's" where
  "map_st f [] s = ([], s)"
| "map_st f (x # xs) s =
     (let (y, s') = f x s; (ys, s'') = map_st f xs s' in (y # ys, s''))"

text \<open>\<^verbatim>\<open>!branchInfo || branchInfo.message === 'Branch not found'\<close>\<close>

definition branch_missing :: "branch_info option \<Rightarrow> bool" where
  "branch_missing branchInfo =
     (case branchInfo of None \<Rightarrow> True | Some b \<Rightarrow> message b = Some (str ''Branch not found''))"

text \<open>The second \<^verbatim>\<open>filter\<close>, which logs each record it drops.\<close>

fun filter_found ::
  "(pull_request \<times> branch_info option) list \<Rightarrow> 'w st \<Rightarrow> (pull_request \<times> branch_info option) list \<times> 'w st"
where
  "filter_found [] s = ([], s)"
| "filter_found (x # xs) s =
     (if branch_missing (snd x) then filter_found xs (emit [Log Branch_not_found] s)
      else let (ys, s') = filter_found xs s in (x # ys, s'))"

text \<open>\<^verbatim>\<open>Date.parse(pr.merged_at)\<close>; \<^verbatim>\<open>Date.parse(null)\<close> is \<open>NaN\<close>.\<close>

definition parsed_merged_at :: "'w runtime \<Rightarrow> jsstring option \<Rightarrow> jsnumber" where
  "parsed_merged_at rt m =
     (case m of None \<Rightarrow> NaN
      | Some s \<Rightarrow> (case Date_parse rt s of None \<Rightarrow> NaN | Some t \<Rightarrow> Num (of_int t)))"

text \<open>The body of the second \<^verbatim>\<open>map\<close>, for the value \<open>now\<close> that \<^verbatim>\<open>Date.now()\<close>
  returned.\<close>

definition monthsAge :: "'w runtime \<Rightarrow> int \<Rightarrow> jsstring option \<Rightarrow> jsnumber" where
  "monthsAge rt now m =
     (let age = js_div (js_sub (Num (of_int now)) (parsed_merged_at rt m)) 1000
      in js_div age MONTH_IN_SECONDS)"

definition candidate_of :: "'w runtime \<Rightarrow> int \<Rightarrow> pull_request \<Rightarrow> candidate" where
  "candidate_of rt now pr =
     \<lparr>state = pr_state pr, number = pr_number pr, title = pr_title pr,
      age = monthsAge rt now (pr_merged_at pr), html_url = pr_html_url pr,
      branch_name = head_ref pr, base_branch_name = base_ref pr,
      merged_at = pr_merged_at pr\<rparr>"

definition to_candidate ::
  "'w runtime \<Rightarrow> pull_request \<times> branch_info option \<Rightarrow> 'w st \<Rightarrow> candidate \<times> 'w st"
where
  "to_candidate rt x s =
     (let (now, w') = Date_now rt (fst s) in (candidate_of rt now (fst x), (w', snd s)))"

text \<open>The last \<^verbatim>\<open>filter\<close>: \<^verbatim>\<open>pr.age >= AGE_IN_MONTHS\<close>.\<close>

definition old_enough :: "jsnumber \<Rightarrow> candidate \<Rightarrow> bool" where
  "old_enough ageInMonths pr \<longleftrightarrow> js_ge (age pr) ageInMonths"

definition process_page ::
  "'w runtime \<Rightarrow> base_config \<Rightarrow> jsnumber \<Rightarrow> pull_request list \<Rightarrow> 'w st \<Rightarrow> candidate list \<times> 'w st"
where
  "process_page rt baseConfig ageInMonths data s =
     (let (looked, s1) = map_st (lookup rt baseConfig) (filter local_ok data) s;
          (found, s2) = filter_found looked s1;
          (aged, s3) = map_st (to_candidate rt) found s2
      in (filter (old_enough ageInMonths) aged, s3))"

subsection \<open>The discovery loop (lines 86 to 157)\<close>

text \<open>One pass through the body of \<^verbatim>\<open>for (;;)\<close>: it ends the loop (\<open>Break\<close>), goes
  on with the next page (\<open>Continue\<close>), or \<^verbatim>\<open>pulls.list\<close> throws.\<close>

datatype 'w step =
    Continue list_config "candidate list" "'w st"
  | Break "candidate list" "'w st"
  | Throw "'w st"

definition iteration ::
  "'w runtime \<Rightarrow> base_config \<Rightarrow> jsnumber \<Rightarrow> jsnumber \<Rightarrow> list_config \<Rightarrow> candidate list \<Rightarrow> 'w st \<Rightarrow> 'w step"
where
  "iteration rt baseConfig ageInMonths maxCount config mergedPRs s =
     (let s1 = emit [Log (Page_getting (page config))] s;
          (pulls, w2) = pulls_list rt config (fst s1);
          s2 = (w2, snd s1 @ [Pulls_list config pulls])
      in case pulls of
           Rejected \<Rightarrow> Throw s2
         | Fulfilled None \<Rightarrow> Break mergedPRs (emit [Log No_more_PRs] s2)
         | Fulfilled (Some data) \<Rightarrow>
             if data = [] then Break mergedPRs (emit [Log No_more_PRs] s2)
             else
               let (pullRequests, s3) = process_page rt baseConfig ageInMonths data s2;
                   mergedPRs' = mergedPRs @ pullRequests
               in if js_ge (Num (of_nat (length mergedPRs'))) maxCount
                  then Break mergedPRs' (emit [Log (Max_reached maxCount)] s3)
                  else Continue (config\<lparr>page := page config + 1\<rparr>) mergedPRs'
                         (emit [Log (Processed (length pullRequests))] s3))"

text \<open>The loop has no bound of its own; the model runs at most \<open>fuel\<close> passes and
  says so when they did not end it.\<close>

datatype 'w loop_result =
    Done "candidate list" "'w st"
  | Thrown "'w st"
  | Out_of_fuel list_config "candidate list" "'w st"

fun discover ::
  "nat \<Rightarrow> 'w runtime \<Rightarrow> base_config \<Rightarrow> jsnumber \<Rightarrow> jsnumber \<Rightarrow> list_config \<Rightarrow> candidate list \<Rightarrow> 'w st
     \<Rightarrow> 'w loop_result"
where
  "discover 0 rt baseConfig ageInMonths maxCount config mergedPRs s = Out_of_fuel config mergedPRs s"
| "discover (Suc fuel) rt baseConfig ageInMonths maxCount config mergedPRs s =
     (case iteration rt baseConfig ageInMonths maxCount config mergedPRs s of
        Continue config' mergedPRs' s' \<Rightarrow> discover fuel rt baseConfig ageInMonths maxCount config' mergedPRs' s'
      | Break mergedPRs' s' \<Rightarrow> Done mergedPRs' s'
      | Throw s' \<Rightarrow> Thrown s')"

subsection \<open>After discovery (lines 159 to 194)\<close>

text \<open>The deletion loop of Nuke mode.\<close>

fun delete_all :: "'w runtime \<Rightarrow> base_config \<Rightarrow> candidate list \<Rightarrow> 'w st \<Rightarrow> 'w st" where
  "delete_all rt baseConfig [] s = s"
| "delete_all rt baseConfig (mergedPR # rest) s =
     (let s1 = emit [Log (Attempting (branch_name mergedPR))] s;
          args = \<lparr>owner = owner baseConfig, repo = repo baseConfig, ref = branch_name mergedPR\<rparr>;
          (r, w2) = deleteRef rt args (fst s1);
          s2 = (w2, snd s1 @ [Delete_ref args r]);
          s3 = (case r of
                  Fulfilled u \<Rightarrow> emit [Log Done_line] s2
                | Rejected \<Rightarrow>
                    emit [Log (Delete_failed (html_url mergedPR) (branch_name mergedPR))] s2)
      in delete_all rt baseConfig rest s3)"

text \<open>The logging loop of DryRun mode.\<close>

fun log_all :: "candidate list \<Rightarrow> 'w st \<Rightarrow> 'w st" where
  "log_all [] s = s"
| "log_all (mergedPR # rest) s =
     log_all rest (emit [Log (Attempting (branch_name mergedPR)),
       Log (Months_old (number mergedPR) (age mergedPR))] s)"

definition after_discovery ::
  "'w runtime \<Rightarrow> base_config \<Rightarrow> jsstring \<Rightarrow> jsstring \<Rightarrow> candidate list \<Rightarrow> 'w st \<Rightarrow> outcome \<times> 'w st"
where
  "after_discovery rt baseConfig mode confirm mergedPRs s =
     (let s1 = emit [Write_file (str ''./merged-prs.json'') mergedPRs, Log (Got (length mergedPRs))] s
      in if mode = str ''NUKE'' then
           let s2 = emit [Question ''Getting ready for actually removing branches. Confirm this action by typing NUKE. Note that this action cannot be updone: ''] s1
           in if confirm \<noteq> str ''NUKE'' then (Process_exit None, emit [Close, Log Exiting] s2)
              else (Completed, emit [Close] (delete_all rt baseConfig mergedPRs s2))
         else (Completed, emit [Close] (log_all mergedPRs (emit [Log Just_logging] s1))))"

subsection \<open>The whole script\<close>

definition baseConfig :: "(jsstring \<Rightarrow> jsstring option) \<Rightarrow> base_config" where
  "baseConfig env = \<lparr>owner = env (str ''OWNER''), repo = env (str ''REPO'')\<rparr>"

definition config :: "(jsstring \<Rightarrow> jsstring option) \<Rightarrow> list_config" where
  "config env = \<lparr>owner = owner (baseConfig env), repo = repo (baseConfig env),
     cfg_state = str ''closed'', cfg_sort = str ''updated'', cfg_direction = str ''desc'',
     page = 1, per_page = PER_PAGE_COUNT env\<rparr>"

text \<open>The loop as the script enters it: the first page, nothing accumulated.\<close>

definition discovery ::
  "nat \<Rightarrow> 'w runtime \<Rightarrow> (jsstring \<Rightarrow> jsstring option) \<Rightarrow> 'w st \<Rightarrow> 'w loop_result"
where
  "discovery fuel rt env s =
     discover fuel rt (baseConfig env) (AGE_IN_MONTHS env) (MAX_COUNT env) (config env) [] s"

text \<open>
  \<open>run fuel rt env mode answer confirm w\<close>: the script in the environment \<open>env\<close>
  (\<^verbatim>\<open>process.env\<close>), started in the world \<open>w\<close>, when the user answers the three prompts
  with \<open>mode\<close>, \<open>answer\<close> and \<open>confirm\<close> (an answer is read only if its prompt is
  reached). The result is how the process ends and the trace up to there.
\<close>

definition run ::
  "nat \<Rightarrow> 'w runtime \<Rightarrow> (jsstring \<Rightarrow> jsstring option) \<Rightarrow> jsstring \<Rightarrow> jsstring \<Rightarrow> jsstring \<Rightarrow> 'w
     \<Rightarrow> outcome \<times> 'w st"
where
  "run fuel rt env mode0 answer confirm w =
     (if \<not> allRequiredVarsPresent env then (Process_exit (Some 1), (w, [Log Missing_env_vars]))
      else
        let s0 = (w, [Question ''Type DRYRUN (default) or NUKE to select a mode. DRYRUN does nothing, just logs: '']);
            mode = (if mode0 = [] then str ''DRYRUN'' else mode0)
        in if \<not> array_includes [str ''DRYRUN'', str ''NUKE''] mode
           then (Process_exit (Some 1), emit [Log Unsupported_mode, Close] s0)
           else
             let questionText = (if mode = str ''DRYRUN'' then ''Hit ENTER to continue ''
                   else ''Are you sure you want to continue. Type YES I DO to continue? '');
                 s1 = emit [Log (Mode_selected mode), Question questionText] s0
             in if mode = str ''NUKE'' \<and> answer \<noteq> str ''YES I DO''
                then (Process_exit (Some 1), emit [Log Exiting_safe, Close] s1)
                else
                  (case discovery fuel rt env (emit [Log No_turning_back] s1) of
                     Done mergedPRs s3 \<Rightarrow> after_discovery rt (baseConfig env) mode confirm mergedPRs s3
                   | Thrown s3 \<Rightarrow> (Unhandled_rejection, s3)
                   | Out_of_fuel config' mergedPRs s3 \<Rightarrow> (Still_discovering, s3)))"

section \<open>Reading a trace\<close>

text \<open>The branches for which \<^verbatim>\<open>deleteRef\<close> was called, in the order of the calls.\<close>

definition deleted_refs :: "event list \<Rightarrow> jsstring list" where
  "deleted_refs tr = concat (map (\<lambda>e. case e of Delete_ref a r \<Rightarrow> [ref a] | _ \<Rightarrow> []) tr)"

text \<open>The lists written to the result file, with the path of each write.\<close>

definition written :: "event list \<Rightarrow> (jsstring \<times> candidate list) list" where
  "written tr = concat (map (\<lambda>e. case e of Write_file p cs \<Rightarrow> [(p, cs)] | _ \<Rightarrow> []) tr)"

text \<open>The page numbers \<^verbatim>\<open>pulls.list\<close> was called with, and the pull requests it
  returned.\<close>

definition fetched_pages :: "event list \<Rightarrow> nat list" where
  "fetched_pages tr = concat (map (\<lambda>e. case e of Pulls_list c r \<Rightarrow> [page c] | _ \<Rightarrow> []) tr)"

definition fetched_prs :: "event list \<Rightarrow> pull_request list" where
  "fetched_prs tr =
     concat (map (\<lambda>e. case e of Pulls_list c (Fulfilled (Some prs)) \<Rightarrow> prs | _ \<Rightarrow> []) tr)"

text \<open>What the deletion loop adds to the trace for one candidate, when \<^verbatim>\<open>deleteRef\<close>
  settles as \<open>r\<close>.\<close>

definition deletion_events :: "base_config \<Rightarrow> candidate \<Rightarrow> unit settled \<Rightarrow> event list" where
  "deletion_events bc c r =
     [Log (Attempting (branch_name c)),
      Delete_ref \<lparr>owner = owner bc, repo = repo bc, ref = branch_name c\<rparr> r,
      Log (case r of Fulfilled u \<Rightarrow> Done_line
           | Rejected \<Rightarrow> Delete_failed (html_url c) (branch_name c))]"

text \<open>The pull request a candidate was made from: \<open>candidate_of\<close> copies every field
  of the pull request into the candidate.\<close>

definition source_of :: "candidate \<Rightarrow> pull_request" where
  "source_of c =
     \<lparr>pr_state = state c, pr_number = number c, pr_title = title c, pr_html_url = html_url c,
      pr_merged_at = merged_at c, head_ref = branch_name c, base_ref = base_branch_name c\<rparr>"

text \<open>The events of the branch lookups of a page: the calls of \<^verbatim>\<open>getBranch\<close> and log
  lines.\<close>

definition lookup_event :: "event \<Rightarrow> bool" where
  "lookup_event e = (case e of Log l \<Rightarrow> True | Get_branch a r \<Rightarrow> True | _ \<Rightarrow> False)"

text \<open>The state in which a pass, and the loop, ends.\<close>

fun step_state :: "'w step \<Rightarrow> 'w st" where
  "step_state (Continue c m s) = s"
| "step_state (Break m s) = s"
| "step_state (Throw s) = s"

fun result_state :: "'w loop_result \<Rightarrow> 'w st" where
  "result_state (Done m s) = s"
| "result_state (Thrown s) = s"
| "result_state (Out_of_fuel c m s) = s"

text \<open>\<open>passes k\<close>: the configuration, the accumulated list and the state with which
  pass \<open>k + 1\<close> of the loop starts, when the first \<open>k\<close> passes all went on to the next
  page (\<open>None\<close> when one of them ended the loop).\<close>

fun passes ::
  "nat \<Rightarrow> 'w runtime \<Rightarrow> base_config \<Rightarrow> jsnumber \<Rightarrow> jsnumber \<Rightarrow> list_config \<Rightarrow> candidate list \<Rightarrow> 'w st
     \<Rightarrow> (list_config \<times> candidate list \<times> 'w st) option"
where
  "passes 0 rt bc ageInMonths maxCount cfg acc s = Some (cfg, acc, s)"
| "passes (Suc k) rt bc ageInMonths maxCount cfg acc s =
     (case iteration rt bc ageInMonths maxCount cfg acc s of
        Continue cfg' acc' s' \<Rightarrow> passes k rt bc ageInMonths maxCount cfg' acc' s'
      | Break acc' s' \<Rightarrow> None
      | Throw s' \<Rightarrow> None)"

section \<open>An example world\<close>

text \<open>
  An environment with the three required variables and no limit set, and a repository
  with one page of two merged pull requests that have the same head branch; every branch
  exists, every deletion succeeds, the pull requests were merged at the epoch and the
  clock stands 90 days later.
\<close>

definition example_env :: "jsstring \<Rightarrow> jsstring option" where
  "example_env v =
     (if v = str ''OWNER'' then Some (str ''acme'')
      else if v = str ''REPO'' then Some (str ''widgets'')
      else if v = str ''GITHUB_TOKEN'' then Some (str ''secret'')
      else None)"

definition example_pr :: "int \<Rightarrow> pull_request" where
  "example_pr n =
     \<lparr>pr_state = str ''closed'', pr_number = n, pr_title = str ''Fix'',
      pr_html_url = str ''https://github.com/acme/widgets/pull'',
      pr_merged_at = Some (str ''1970-01-01T00:00:00Z''),
      head_ref = str ''feature'', base_ref = str ''master''\<rparr>"

definition example_runtime :: "unit runtime" where
  "example_runtime =
     \<lparr>pulls_list = (\<lambda>c w. (Fulfilled (Some (if page c = 1 then [example_pr 1, example_pr 2] else [])), w)),
      getBranch = (\<lambda>a w. (Fulfilled (Some \<lparr>message = None\<rparr>), w)),
      deleteRef = (\<lambda>a w. (Fulfilled (), w)),
      Date_now = (\<lambda>w. (7776000000, w)),
      Date_parse = (\<lambda>s. Some 0)\<rparr>"


text \<open>An environment that sets the three limits to strings that are zero or no
  number.\<close>

definition zero_env :: "jsstring \<Rightarrow> jsstring option" where
  "zero_env v =
     (if v = str ''AGE_IN_MONTHS'' then Some (str ''0'')
      else if v = str ''MAX_COUNT'' then Some (str ''many'')
      else if v = str ''PER_PAGE_COUNT'' then Some (str '' -00 per page'')
      else example_env v)"

section \<open>Facts about traces and the page pipeline\<close>

lemma emit_simps [simp]: "fst (emit es s) = fst s" "snd (emit es s) = snd s @ es"
  by (simp_all add: emit_def)

lemma deleted_refs_simps [simp]:
  "deleted_refs [] = []"
  "deleted_refs (xs @ ys) = deleted_refs xs @ deleted_refs ys"
  "deleted_refs (Delete_ref a r # xs) = ref a # deleted_refs xs"
  "deleted_refs (Log l # xs) = deleted_refs xs"
  "deleted_refs (Question q # xs) = deleted_refs xs"
  "deleted_refs (Close # xs) = deleted_refs xs"
  "deleted_refs (Pulls_list c p # xs) = deleted_refs xs"
  "deleted_refs (Get_branch b g # xs) = deleted_refs xs"
  "deleted_refs (Write_file f cs # xs) = deleted_refs xs"
  by (simp_all add: deleted_refs_def)

lemma lookup_event_simps [simp]:
  "lookup_event (Log l)" "lookup_event (Get_branch a g)"
  "\<not> lookup_event (Question q)" "\<not> lookup_event Close" "\<not> lookup_event (Pulls_list c p)"
  "\<not> lookup_event (Delete_ref d r)" "\<not> lookup_event (Write_file f cs)"
  by (simp_all add: lookup_event_def)

lemma written_simps [simp]:
  "written [] = []"
  "written (xs @ ys) = written xs @ written ys"
  "written (Write_file f cs # xs) = (f, cs) # written xs"
  "written (Log l # xs) = written xs"
  "written (Question q # xs) = written xs"
  "written (Close # xs) = written xs"
  "written (Pulls_list c p # xs) = written xs"
  "written (Get_branch b g # xs) = written xs"
  "written (Delete_ref d r # xs) = written xs"
  by (simp_all add: written_def)

lemma fetched_pages_simps [simp]:
  "fetched_pages [] = []"
  "fetched_pages (xs @ ys) = fetched_pages xs @ fetched_pages ys"
  "fetched_pages (Pulls_list c p # xs) = page c # fetched_pages xs"
  "fetched_pages (Log l # xs) = fetched_pages xs"
  "fetched_pages (Question q # xs) = fetched_pages xs"
  "fetched_pages (Close # xs) = fetched_pages xs"
  "fetched_pages (Write_file f cs # xs) = fetched_pages xs"
  "fetched_pages (Get_branch b g # xs) = fetched_pages xs"
  "fetched_pages (Delete_ref d r # xs) = fetched_pages xs"
  by (simp_all add: fetched_pages_def)

lemma fetched_prs_simps [simp]:
  "fetched_prs [] = []"
  "fetched_prs (xs @ ys) = fetched_prs xs @ fetched_prs ys"
  "fetched_prs (Pulls_list c (Fulfilled (Some prs)) # xs) = prs @ fetched_prs xs"
  "fetched_prs (Pulls_list c (Fulfilled None) # xs) = fetched_prs xs"
  "fetched_prs (Pulls_list c Rejected # xs) = fetched_prs xs"
  "fetched_prs (Log l # xs) = fetched_prs xs"
  "fetched_prs (Question q # xs) = fetched_prs xs"
  "fetched_prs (Close # xs) = fetched_prs xs"
  "fetched_prs (Write_file f cs # xs) = fetched_prs xs"
  "fetched_prs (Get_branch b g # xs) = fetched_prs xs"
  "fetched_prs (Delete_ref d r # xs) = fetched_prs xs"
  by (simp_all add: fetched_prs_def)

lemma lookup_events_silent:
  "list_all lookup_event es \<Longrightarrow>
     deleted_refs es = [] \<and> written es = [] \<and> fetched_pages es = [] \<and> fetched_prs es = []"
proof (induction es)
  case Nil
  then show ?case by simp
next
  case (Cons e es)
  then show ?case by (cases e) simp_all
qed

lemma map_st_Cons:
  "map_st f (x # xs) s =
     (fst (f x s) # fst (map_st f xs (snd (f x s))), snd (map_st f xs (snd (f x s))))"
  by (simp split: prod.splits)

lemma map_st_trace:
  fixes f :: "'a \<Rightarrow> 'w st \<Rightarrow> 'b \<times> 'w st"
  assumes "\<And>x s. \<exists>es. snd (snd (f x s)) = snd s @ es \<and> list_all P es"
  shows "\<exists>es. snd (snd (map_st f xs s)) = snd s @ es \<and> list_all P es"
proof (induction xs arbitrary: s)
  case Nil
  then show ?case by simp
next
  case (Cons x xs)
  obtain y s' where f: "f x s = (y, s')" by (cases "f x s")
  obtain ys s'' where m: "map_st f xs s' = (ys, s'')" by (cases "map_st f xs s'")
  from assms [of x s] f obtain es1 where es1: "snd s' = snd s @ es1" "list_all P es1" by auto
  from Cons.IH [of s'] m obtain es2 where es2: "snd s'' = snd s' @ es2" "list_all P es2" by auto
  have "snd (snd (map_st f (x # xs) s)) = snd s @ (es1 @ es2) \<and> list_all P (es1 @ es2)"
    using f m es1 es2 by simp
  then show ?case by blast
qed

lemma lookup_trace:
  "\<exists>es. snd (snd (lookup rt bc pr s)) = snd s @ es \<and> list_all lookup_event es"
  by (simp add: lookup_def Let_def split: prod.splits settled.splits)

lemma lookup_fst: "fst (fst (lookup rt bc pr s)) = pr"
  by (simp add: lookup_def Let_def split: prod.splits settled.splits)

lemma map_st_lookup_fst: "map fst (fst (map_st (lookup rt bc) prs s)) = prs"
proof (induction prs arbitrary: s)
  case Nil
  then show ?case by simp
next
  case (Cons pr prs)
  show ?case using Cons.IH [of "snd (lookup rt bc pr s)"]
    by (simp add: map_st_Cons lookup_fst del: map_st.simps)
qed

lemma filter_found_Cons:
  "filter_found (x # xs) s =
     (if branch_missing (snd x) then filter_found xs (emit [Log Branch_not_found] s)
      else (x # fst (filter_found xs s), snd (filter_found xs s)))"
  by (simp split: prod.splits)

lemma filter_found_fst:
  "fst (filter_found xs s) = filter (\<lambda>x. \<not> branch_missing (snd x)) xs"
  by (induction xs arbitrary: s) (simp_all add: filter_found_Cons del: filter_found.simps(2))

lemma filter_found_trace:
  "snd (filter_found xs s) =
     (fst s, snd s @ replicate (length (filter (\<lambda>x. branch_missing (snd x)) xs)) (Log Branch_not_found))"
proof (induction xs arbitrary: s)
  case Nil
  then show ?case by simp
next
  case (Cons x xs)
  show ?case
  proof (cases "branch_missing (snd x)")
    case True
    then show ?thesis using Cons.IH [of "emit [Log Branch_not_found] s"]
      by (simp add: filter_found_Cons replicate_app_Cons_same del: filter_found.simps(2))
  next
    case False
    then show ?thesis using Cons.IH [of s]
      by (simp add: filter_found_Cons del: filter_found.simps(2))
  qed
qed

lemma to_candidate_trace: "snd (snd (to_candidate rt x s)) = snd s"
  by (simp add: to_candidate_def split: prod.splits)

lemma source_of_candidate_of [simp]: "source_of (candidate_of rt now pr) = pr"
  by (simp add: source_of_def candidate_of_def)

lemma to_candidate_fst: "\<exists>now. fst (to_candidate rt x s) = candidate_of rt now (fst x)"
  by (auto simp: to_candidate_def split: prod.splits)

lemma map_st_to_candidate:
  "list_all2 (\<lambda>c x. \<exists>now. c = candidate_of rt now (fst x)) (fst (map_st (to_candidate rt) xs s)) xs"
proof (induction xs arbitrary: s)
  case Nil
  then show ?case by simp
next
  case (Cons x xs)
  show ?case using Cons.IH [of "snd (to_candidate rt x s)"] to_candidate_fst [of rt x s]
    by (simp add: map_st_Cons del: map_st.simps)
qed

lemma candidates_sources:
  "list_all2 (\<lambda>c x. \<exists>now. c = candidate_of rt now (fst x)) cs xs \<Longrightarrow> map source_of cs = map fst xs"
  by (induction cs xs rule: list_all2_induct) auto

lemma process_page_unfold:
  "process_page rt bc ageInMonths data s =
     (filter (old_enough ageInMonths)
        (fst (map_st (to_candidate rt)
           (fst (filter_found (fst (map_st (lookup rt bc) (filter local_ok data) s))
              (snd (map_st (lookup rt bc) (filter local_ok data) s))))
           (snd (filter_found (fst (map_st (lookup rt bc) (filter local_ok data) s))
              (snd (map_st (lookup rt bc) (filter local_ok data) s)))))),
      snd (map_st (to_candidate rt)
           (fst (filter_found (fst (map_st (lookup rt bc) (filter local_ok data) s))
              (snd (map_st (lookup rt bc) (filter local_ok data) s))))
           (snd (filter_found (fst (map_st (lookup rt bc) (filter local_ok data) s))
              (snd (map_st (lookup rt bc) (filter local_ok data) s))))))"
  by (simp add: process_page_def split: prod.splits)

lemma process_page_trace:
  "\<exists>es. snd (snd (process_page rt bc ageInMonths data s)) = snd s @ es \<and> list_all lookup_event es"
proof -
  define L where "L = map_st (lookup rt bc) (filter local_ok data) s"
  define F where "F = filter_found (fst L) (snd L)"
  define G where "G = map_st (to_candidate rt) (fst F) (snd F)"
  obtain es1 where es1: "snd (snd L) = snd s @ es1" "list_all lookup_event es1"
    unfolding L_def using map_st_trace [of "lookup rt bc" lookup_event "filter local_ok data" s]
      lookup_trace [of rt bc] by blast
  obtain es2 where es2: "snd (snd F) = snd (snd L) @ es2" "list_all lookup_event es2"
    unfolding F_def using filter_found_trace [of "fst L" "snd L"] by (simp add: list_all_iff)
  have "\<And>x t. \<exists>es. snd (snd (to_candidate rt x t)) = snd t @ es \<and> list_all lookup_event es"
    by (simp add: to_candidate_trace)
  then obtain es3 where es3: "snd (snd G) = snd (snd F) @ es3" "list_all lookup_event es3"
    unfolding G_def using map_st_trace [of "to_candidate rt" lookup_event "fst F" "snd F"] by blast
  have "snd (snd (process_page rt bc ageInMonths data s)) = snd (snd G)"
    by (simp add: process_page_unfold G_def F_def L_def)
  then have "snd (snd (process_page rt bc ageInMonths data s)) = snd s @ (es1 @ es2 @ es3)
      \<and> list_all lookup_event (es1 @ es2 @ es3)"
    using es1 es2 es3 by simp
  then show ?thesis by blast
qed

lemma process_page_found:
  "subseq (map source_of (fst (process_page rt bc ageInMonths data s)))
     (map fst (filter (\<lambda>x. \<not> branch_missing (snd x))
        (fst (map_st (lookup rt bc) (filter local_ok data) s))))"
proof -
  define L where "L = map_st (lookup rt bc) (filter local_ok data) s"
  define F where "F = filter_found (fst L) (snd L)"
  define G where "G = map_st (to_candidate rt) (fst F) (snd F)"
  have cands: "fst (process_page rt bc ageInMonths data s) = filter (old_enough ageInMonths) (fst G)"
    by (simp add: process_page_unfold G_def F_def L_def)
  have "map source_of (fst G) = map fst (fst F)"
    unfolding G_def by (rule candidates_sources [OF map_st_to_candidate])
  moreover have "fst F = filter (\<lambda>x. \<not> branch_missing (snd x)) (fst L)"
    unfolding F_def by (rule filter_found_fst)
  moreover have "subseq (map source_of (filter (old_enough ageInMonths) (fst G))) (map source_of (fst G))"
    by (rule subseq_map) simp
  ultimately show ?thesis using cands by (simp add: L_def)
qed

lemma process_page_sources:
  "subseq (map source_of (fst (process_page rt bc ageInMonths data s))) (filter local_ok data)"
proof -
  have "subseq (map fst (filter (\<lambda>x. \<not> branch_missing (snd x))
        (fst (map_st (lookup rt bc) (filter local_ok data) s))))
      (map fst (fst (map_st (lookup rt bc) (filter local_ok data) s)))"
    by (rule subseq_map) simp
  then have "subseq (map fst (filter (\<lambda>x. \<not> branch_missing (snd x))
        (fst (map_st (lookup rt bc) (filter local_ok data) s)))) (filter local_ok data)"
    by (simp add: map_st_lookup_fst)
  with process_page_found [of rt bc ageInMonths data s] show ?thesis
    by (rule subseq_order.order_trans)
qed



lemma iteration_cases [case_names throw empty cap continue]:
  obtains
    w' where "pulls_list rt cfg (fst s) = (Rejected, w')"
      "iteration rt bc ageInMonths maxCount cfg acc s
         = Throw (w', snd s @ [Log (Page_getting (page cfg)), Pulls_list cfg Rejected])"
  | d w' where "pulls_list rt cfg (fst s) = (Fulfilled d, w')" "d = None \<or> d = Some []"
      "iteration rt bc ageInMonths maxCount cfg acc s
         = Break acc (w', snd s @ [Log (Page_getting (page cfg)), Pulls_list cfg (Fulfilled d), Log No_more_PRs])"
  | data w' P where "pulls_list rt cfg (fst s) = (Fulfilled (Some data), w')" "data \<noteq> []"
      "P = process_page rt bc ageInMonths data
             (w', snd s @ [Log (Page_getting (page cfg)), Pulls_list cfg (Fulfilled (Some data))])"
      "js_ge (Num (of_nat (length (acc @ fst P)))) maxCount"
      "iteration rt bc ageInMonths maxCount cfg acc s
         = Break (acc @ fst P) (emit [Log (Max_reached maxCount)] (snd P))"
  | data w' P where "pulls_list rt cfg (fst s) = (Fulfilled (Some data), w')" "data \<noteq> []"
      "P = process_page rt bc ageInMonths data
             (w', snd s @ [Log (Page_getting (page cfg)), Pulls_list cfg (Fulfilled (Some data))])"
      "\<not> js_ge (Num (of_nat (length (acc @ fst P)))) maxCount"
      "iteration rt bc ageInMonths maxCount cfg acc s
         = Continue (cfg\<lparr>page := page cfg + 1\<rparr>) (acc @ fst P)
             (emit [Log (Processed (length (fst P)))] (snd P))"
proof -
  obtain r w' where call: "pulls_list rt cfg (fst s) = (r, w')" by (cases "pulls_list rt cfg (fst s)")
  show thesis
  proof (cases r)
    case Rejected
    then show ?thesis using call that(1) [of w'] by (simp add: iteration_def emit_def)
  next
    case (Fulfilled d)
    show ?thesis
    proof (cases d)
      case None
      then show ?thesis using call Fulfilled that(2) [of d w'] by (simp add: iteration_def emit_def)
    next
      case (Some data)
      show ?thesis
      proof (cases "data = []")
        case True
        then show ?thesis using call Fulfilled Some that(2) [of d w']
          by (simp add: iteration_def emit_def)
      next
        case False
        define P where "P = process_page rt bc ageInMonths data
             (w', snd s @ [Log (Page_getting (page cfg)), Pulls_list cfg (Fulfilled (Some data))])"
        show ?thesis
        proof (cases "js_ge (Num (of_nat (length (acc @ fst P)))) maxCount")
          case True
          have "iteration rt bc ageInMonths maxCount cfg acc s
             = Break (acc @ fst P) (emit [Log (Max_reached maxCount)] (snd P))"
            using call Fulfilled Some False True
            by (auto simp: iteration_def emit_def P_def Let_def split: prod.splits)
          then show ?thesis using that(3) [of data w' P] call Fulfilled Some False True P_def by simp
        next
          case nocap: False
          have "iteration rt bc ageInMonths maxCount cfg acc s
             = Continue (cfg\<lparr>page := page cfg + 1\<rparr>) (acc @ fst P)
                 (emit [Log (Processed (length (fst P)))] (snd P))"
            using call Fulfilled Some False nocap
            by (auto simp: iteration_def emit_def P_def Let_def split: prod.splits)
          then show ?thesis using that(4) [of data w' P] call Fulfilled Some False nocap P_def by simp
        qed
      qed
    qed
  qed
qed

lemma iteration_trace:
  "\<exists>es. snd (step_state (iteration rt bc ageInMonths maxCount cfg acc s))
       = snd s @ Log (Page_getting (page cfg)) # Pulls_list cfg (fst (pulls_list rt cfg (fst s))) # es
     \<and> list_all lookup_event es"
proof (cases rule: iteration_cases [of rt cfg s bc ageInMonths maxCount acc])
  case (throw w')
  then show ?thesis by simp
next
  case (empty d w')
  then show ?thesis by simp
next
  case (cap data w' P)
  from process_page_trace [of rt bc ageInMonths data
      "(w', snd s @ [Log (Page_getting (page cfg)), Pulls_list cfg (Fulfilled (Some data))])"]
  obtain es where "snd (snd P) = (snd s @ [Log (Page_getting (page cfg)), Pulls_list cfg (Fulfilled (Some data))]) @ es"
    "list_all lookup_event es" using cap(3) by auto
  then have "snd (step_state (iteration rt bc ageInMonths maxCount cfg acc s))
       = snd s @ Log (Page_getting (page cfg)) # Pulls_list cfg (fst (pulls_list rt cfg (fst s))) # (es @ [Log (Max_reached maxCount)])
     \<and> list_all lookup_event (es @ [Log (Max_reached maxCount)])"
    using cap by simp
  then show ?thesis by blast
next
  case (continue data w' P)
  from process_page_trace [of rt bc ageInMonths data
      "(w', snd s @ [Log (Page_getting (page cfg)), Pulls_list cfg (Fulfilled (Some data))])"]
  obtain es where "snd (snd P) = (snd s @ [Log (Page_getting (page cfg)), Pulls_list cfg (Fulfilled (Some data))]) @ es"
    "list_all lookup_event es" using continue(3) by auto
  then have "snd (step_state (iteration rt bc ageInMonths maxCount cfg acc s))
       = snd s @ Log (Page_getting (page cfg)) # Pulls_list cfg (fst (pulls_list rt cfg (fst s))) # (es @ [Log (Processed (length (fst P)))])
     \<and> list_all lookup_event (es @ [Log (Processed (length (fst P)))])"
    using continue by simp
  then show ?thesis by blast
qed

lemma iteration_silent:
  "deleted_refs (snd (step_state (iteration rt bc ageInMonths maxCount cfg acc s))) = deleted_refs (snd s)"
  "written (snd (step_state (iteration rt bc ageInMonths maxCount cfg acc s))) = written (snd s)"
  "fetched_pages (snd (step_state (iteration rt bc ageInMonths maxCount cfg acc s)))
     = fetched_pages (snd s) @ [page cfg]"
  using iteration_trace [of rt bc ageInMonths maxCount cfg acc s] lookup_events_silent
  by auto

lemma discover_silent:
  "deleted_refs (snd (result_state (discover fuel rt bc ageInMonths maxCount cfg acc s))) = deleted_refs (snd s)
   \<and> written (snd (result_state (discover fuel rt bc ageInMonths maxCount cfg acc s))) = written (snd s)"
proof (induction fuel arbitrary: cfg acc s)
  case 0
  then show ?case by simp
next
  case (Suc fuel)
  note it = iteration_silent [of rt bc ageInMonths maxCount cfg acc s]
  show ?case
  proof (cases "iteration rt bc ageInMonths maxCount cfg acc s")
    case (Continue c' m' s')
    then show ?thesis using Suc.IH [of c' m' s'] it by simp
  next
    case (Break m' s')
    then show ?thesis using it by simp
  next
    case (Throw s')
    then show ?thesis using it by simp
  qed
qed

lemma log_all_trace:
  "\<exists>es. snd (log_all cs s) = snd s @ es \<and> list_all lookup_event es"
proof (induction cs arbitrary: s)
  case Nil
  then show ?case by simp
next
  case (Cons c cs)
  from Cons.IH [of "emit [Log (Attempting (branch_name c)), Log (Months_old (number c) (age c))] s"]
  obtain es where "snd (log_all (c # cs) s)
      = snd s @ (Log (Attempting (branch_name c)) # Log (Months_old (number c) (age c)) # es)"
    "list_all lookup_event es" by auto
  then have "snd (log_all (c # cs) s)
      = snd s @ (Log (Attempting (branch_name c)) # Log (Months_old (number c) (age c)) # es)
    \<and> list_all lookup_event (Log (Attempting (branch_name c)) # Log (Months_old (number c) (age c)) # es)"
    by simp
  then show ?case by blast
qed

lemma log_all_silent:
  "deleted_refs (snd (log_all cs s)) = deleted_refs (snd s)"
  "written (snd (log_all cs s)) = written (snd s)"
  using log_all_trace [of cs s] lookup_events_silent by auto

lemma str_neq [simp]:
  "str ''DRYRUN'' \<noteq> str ''NUKE''" "str ''NUKE'' \<noteq> str ''DRYRUN''"
  "str ''NUKE'' \<noteq> []" "str ''DRYRUN'' \<noteq> []" "[] \<noteq> str ''NUKE''" "[] \<noteq> str ''DRYRUN''"
  by (simp_all add: str_def)

lemma subseq_in_set: "subseq xs ys \<Longrightarrow> x \<in> set xs \<Longrightarrow> x \<in> set ys"
  by (erule list_emb_set) auto

section \<open>Facts about rounding\<close>

lemma binade_bounds:
  assumes "x \<noteq> 0"
  shows "2 powi (binade x) \<le> \<bar>x\<bar> \<and> \<bar>x\<bar> < 2 powi (binade x + 1)"
proof -
  obtain p q where pq: "quotient_of \<bar>x\<bar> = (p, q)" by (cases "quotient_of \<bar>x\<bar>")
  have q: "0 < q" using pq by (rule quotient_of_denom_pos)
  have x: "\<bar>x\<bar> = of_int p / of_int q" using pq by (rule quotient_of_div)
  have "0 < \<bar>x\<bar>" using assms by simp
  then have p: "0 < p" using x q by (simp add: zero_less_divide_iff)
  define a where "a = bitlen p"
  define b where "b = bitlen q"
  have a1: "1 \<le> a" using p by (auto simp: a_def bitlen_alt_def)
  have b1: "1 \<le> b" using q by (auto simp: b_def bitlen_alt_def)
  from bitlen_bounds [OF p] have "(2::int) ^ nat (a - 1) \<le> p" "p < 2 ^ nat a" by (simp_all add: a_def)
  then have "(of_int ((2::int) ^ nat (a - 1)) :: rat) \<le> of_int p" "(of_int p :: rat) < of_int (2 ^ nat a)"
    by (simp_all only: of_int_le_iff of_int_less_iff)
  then have pb: "(2::rat) powi (a - 1) \<le> of_int p" "(of_int p :: rat) < 2 powi a"
    using a1 by (simp_all add: power_int_def)
  from bitlen_bounds [OF q] have "(2::int) ^ nat (b - 1) \<le> q" "q < 2 ^ nat b" by (simp_all add: b_def)
  then have "(of_int ((2::int) ^ nat (b - 1)) :: rat) \<le> of_int q" "(of_int q :: rat) < of_int (2 ^ nat b)"
    by (simp_all only: of_int_le_iff of_int_less_iff)
  then have qb: "(2::rat) powi (b - 1) \<le> of_int q" "(of_int q :: rat) < 2 powi b"
    using b1 by (simp_all add: power_int_def)
  have q': "(0::rat) < of_int q" using q by simp
  have p': "(0::rat) < of_int p" using p by simp
  have "\<bar>x\<bar> < 2 powi a / 2 powi (b - 1)"
    unfolding x by (rule frac_less) (use pb qb p' in simp_all)
  then have up: "\<bar>x\<bar> < 2 powi (a - b + 1)"
    by (simp add: power_int_diff [symmetric] algebra_simps)
  have "2 powi (a - 1) / 2 powi b < \<bar>x\<bar>"
    unfolding x by (rule frac_less2) (use pb qb q' in simp_all)
  then have lo: "2 powi (a - b - 1) < \<bar>x\<bar>"
    by (simp add: power_int_diff [symmetric] algebra_simps)
  have bin: "binade x = (if 2 powi (a - b) \<le> \<bar>x\<bar> then a - b else a - b - 1)"
    by (simp add: binade_def pq a_def b_def Let_def)
  show ?thesis
  proof (cases "2 powi (a - b) \<le> \<bar>x\<bar>")
    case True
    then show ?thesis using up bin by simp
  next
    case False
    then show ?thesis using lo bin by simp
  qed
qed

lemma roundTiesToEven_cases:
  "roundTiesToEven y = \<lfloor>y\<rfloor> \<and> y - of_int \<lfloor>y\<rfloor> \<le> 1 / 2
   \<or> roundTiesToEven y = \<lfloor>y\<rfloor> + 1 \<and> 1 / 2 \<le> y - of_int \<lfloor>y\<rfloor>"
  by (auto simp: roundTiesToEven_def Let_def)

lemma roundTiesToEven_nearest:
  "\<bar>of_int (roundTiesToEven y) - y\<bar> \<le> \<bar>of_int n - y\<bar>"
proof -
  define f where "f = \<lfloor>y\<rfloor>"
  have f: "of_int f \<le> y" "y < of_int f + 1" using floor_correct [of y] by (simp_all add: f_def)
  consider "n \<le> f" | "f + 1 \<le> n" by linarith
  then show ?thesis
  proof cases
    case 1
    then have "(of_int n :: rat) \<le> of_int f" by simp
    then show ?thesis using roundTiesToEven_cases [of y] f by (auto simp: f_def [symmetric])
  next
    case 2
    then have "(of_int f :: rat) + 1 \<le> of_int n" by (metis of_int_1 of_int_add of_int_le_iff)
    then show ?thesis using roundTiesToEven_cases [of y] f by (auto simp: f_def [symmetric])
  qed
qed


lemma fl_nearest:
  assumes "representable y"
  shows "\<bar>fl x - x\<bar> \<le> \<bar>y - x\<bar>"
proof (cases "x = 0")
  case True
  then show ?thesis by (simp add: fl_def)
next
  case False
  define e where "e = binade x"
  define u :: rat where "u = 2 powi (e - 52)"
  have u: "0 < u" by (simp add: u_def)
  have flx: "fl x = of_int (roundTiesToEven (x / u)) * u"
    using False by (simp add: fl_def Let_def u_def e_def)
  have be: "2 powi e \<le> \<bar>x\<bar>" using binade_bounds [OF False] by (simp add: e_def)
  have near: "\<bar>fl x - x\<bar> \<le> \<bar>of_int n * u - x\<bar>" for n
  proof -
    have "\<bar>of_int (roundTiesToEven (x / u)) - x / u\<bar> * u \<le> \<bar>of_int n - x / u\<bar> * u"
      using roundTiesToEven_nearest [of "x / u" n] u by (simp add: mult_right_mono)
    moreover have "\<bar>of_int k - x / u\<bar> * u = \<bar>of_int k * u - x\<bar>" for k
    proof -
      have "\<bar>of_int k - x / u\<bar> * u = \<bar>(of_int k - x / u) * u\<bar>" using u by (simp add: abs_mult)
      also have "(of_int k - x / u) * u = of_int k * u - x" using u by (simp add: field_simps)
      finally show ?thesis .
    qed
    ultimately show ?thesis by (simp add: flx)
  qed
  from assms obtain m j where mj: "\<bar>m\<bar> \<le> (2::int) ^ 53" "y = of_int m * 2 powi j"
    by (auto simp: representable_def)
  show ?thesis
  proof (cases "e - 52 \<le> j")
    case True
    define n where "n = m * 2 ^ nat (j - (e - 52))"
    have "(2::rat) powi j = 2 powi (j - (e - 52)) * 2 powi (e - 52)"
      by (simp add: power_int_add [symmetric])
    also have "(2::rat) powi (j - (e - 52)) = 2 ^ nat (j - (e - 52))"
      using True by (simp add: power_int_def)
    finally have "y = of_int n * u" by (simp add: mj n_def u_def)
    then show ?thesis using near [of n] by simp
  next
    case False
    then have "j \<le> e - 53" by simp
    then have "(2::rat) powi j \<le> 2 powi (e - 53)" by (intro power_int_increasing) simp_all
    then have "\<bar>y\<bar> \<le> 2 ^ 53 * 2 powi (e - 53)"
    proof -
      have "\<bar>y\<bar> = \<bar>of_int m :: rat\<bar> * 2 powi j" by (simp add: mj abs_mult)
      also have "\<bar>of_int m :: rat\<bar> \<le> 2 ^ 53"
        using mj(1) by (metis of_int_abs of_int_le_iff of_int_numeral of_int_power)
      then have "\<bar>of_int m :: rat\<bar> * 2 powi j \<le> 2 ^ 53 * 2 powi (e - 53)"
        using \<open>(2::rat) powi j \<le> 2 powi (e - 53)\<close> by (intro mult_mono) simp_all
      finally show ?thesis .
    qed
    also have "(2::rat) ^ 53 * 2 powi (e - 53) = 2 powi e"
    proof -
      have "(2::rat) powi e = 2 powi (53 + (e - 53))" by simp
      also have "\<dots> = 2 powi 53 * 2 powi (e - 53)" by (rule power_int_add) simp
      finally show ?thesis by simp
    qed
    finally have ye: "\<bar>y\<bar> \<le> 2 powi e" .
    have ue: "(2::rat) powi e = 2 ^ 52 * u"
    proof -
      have "(2::rat) powi e = 2 powi (52 + (e - 52))" by simp
      also have "\<dots> = 2 powi 52 * 2 powi (e - 52)" by (rule power_int_add) simp
      finally show ?thesis by (simp add: u_def)
    qed
    show ?thesis
    proof (cases "0 < x")
      case True
      have "\<bar>fl x - x\<bar> \<le> \<bar>of_int (2 ^ 52) * u - x\<bar>" by (rule near)
      also have "of_int (2 ^ 52) * u = 2 powi e" using ue by simp
      finally show ?thesis using be ye True by linarith
    next
      case neg: False
      have "\<bar>fl x - x\<bar> \<le> \<bar>of_int (- (2 ^ 52)) * u - x\<bar>" by (rule near)
      also have "of_int (- (2 ^ 52)) * u = - (2 powi e)" using ue by simp
      finally show ?thesis using be ye neg \<open>x \<noteq> 0\<close> by linarith
    qed
  qed
qed


lemma fl_representable: "representable y \<Longrightarrow> fl y = y"
  using fl_nearest [of y y] by simp

lemma representable_int: "\<bar>n\<bar> \<le> 2 ^ 53 \<Longrightarrow> representable (of_int n)"
  unfolding representable_def by (rule exI [of _ n], rule exI [of _ 0]) simp


lemma fl_nonzero: "x \<noteq> 0 \<Longrightarrow> fl x \<noteq> 0"
proof
  assume x: "x \<noteq> 0" and "fl x = 0"
  define e where "e = binade x"
  have be: "2 powi e \<le> \<bar>x\<bar>" using binade_bounds [OF x] by (simp add: e_def)
  have pos: "(0::rat) < 2 powi e" by simp
  have r1: "representable (2 powi e)"
    unfolding representable_def by (rule exI [of _ 1], rule exI [of _ e]) simp
  have r2: "representable (- (2 powi e))"
    unfolding representable_def by (rule exI [of _ "- 1"], rule exI [of _ e]) simp
  show False
  proof (cases "0 < x")
    case True
    then show ?thesis using fl_nearest [OF r1, of x] \<open>fl x = 0\<close> be pos by linarith
  next
    case False
    then show ?thesis using fl_nearest [OF r2, of x] \<open>fl x = 0\<close> be pos x by linarith
  qed
qed

lemma to_number_finite:
  "- (2 ^ 1024) < fl x \<Longrightarrow> fl x < 2 ^ 1024 \<Longrightarrow> to_number x = Num (fl x)"
  by (simp add: to_number_def Let_def)

lemma to_number_int: "\<bar>n\<bar> \<le> 2 ^ 53 \<Longrightarrow> to_number (of_int n) = Num (of_int n)"
proof -
  assume n: "\<bar>n\<bar> \<le> 2 ^ 53"
  then have "fl (of_int n) = of_int n" by (intro fl_representable representable_int)
  moreover have "\<bar>n\<bar> < 2 ^ 1024" using n by simp
  then have "- (2 ^ 1024) < n" "n < 2 ^ 1024" by linarith+
  then have "- (2 ^ 1024) < (of_int n :: rat)" "(of_int n :: rat) < 2 ^ 1024"
    by (metis of_int_less_iff of_int_minus of_int_numeral of_int_power)+
  ultimately show ?thesis by (simp add: to_number_finite)
qed

lemma to_number_numeral [simp]:
  "numeral k \<le> (2::int) ^ 53 \<Longrightarrow> to_number (numeral k) = Num (numeral k)"
  "numeral k \<le> (2::int) ^ 53 \<Longrightarrow> to_number (- numeral k) = Num (- numeral k)"
  "to_number 0 = Num 0" "to_number 1 = Num 1"
  using to_number_int [of "numeral k"] to_number_int [of "- numeral k"] to_number_int [of 0]
    to_number_int [of 1]
  by simp_all


lemma js_ge_NaN [simp]: "\<not> js_ge x NaN"
  by (cases x) simp_all




lemma mathInt_zero:
  "list_all is_digit Z \<Longrightarrow> 0 \<le> acc \<Longrightarrow> (mathInt acc Z = 0 \<longleftrightarrow> acc = 0 \<and> set Z \<subseteq> {0x30})"
proof (induction Z arbitrary: acc)
  case Nil
  then show ?case by simp
next
  case (Cons c Z)
  then have c: "0x30 \<le> c" "c \<le> 0x39" by (simp_all add: is_digit_def)
  then have u: "48 \<le> uint c" by (simp add: word_le_def)
  have z: "uint c - 48 = 0 \<longleftrightarrow> c = 0x30"
  proof
    assume "uint c - 48 = 0"
    then have "uint c = uint (0x30 :: 16 word)" by simp
    then show "c = 0x30" by (simp only: word_uint_eq_iff)
  next
    assume "c = 0x30"
    then show "uint c - 48 = 0" by simp
  qed
  have "mathInt (10 * acc + (uint c - 48)) Z = 0 \<longleftrightarrow> 10 * acc + (uint c - 48) = 0 \<and> set Z \<subseteq> {0x30}"
    using Cons.prems u by (intro Cons.IH) simp_all
  also have "10 * acc + (uint c - 48) = 0 \<longleftrightarrow> acc = 0 \<and> c = 0x30"
    using Cons.prems(2) u z by auto
  finally show ?case by auto
qed

lemma to_number_zero_iff: "to_number (of_int n) = Num 0 \<longleftrightarrow> n = 0"
proof
  assume "to_number (of_int n) = Num 0"
  then have "fl (of_int n) = 0" by (auto simp: to_number_def Let_def split: if_splits)
  then show "n = 0" using fl_nonzero [of "of_int n"] by auto
next
  assume "n = 0"
  then show "to_number (of_int n) = Num 0" by simp
qed

lemma to_number_not_NaN [simp]: "to_number x \<noteq> NaN"
  by (simp add: to_number_def Let_def)

lemma parseInt_digits:
  "parseInt v = NaN \<longleftrightarrow> parsed_digits v = []"
  "parseInt v = Num 0 \<longleftrightarrow> parsed_digits v \<noteq> [] \<and> set (parsed_digits v) \<subseteq> {0x30}"
proof -
  define S where "S = dropWhile StrWhiteSpaceChar (ToString v)"
  define sign :: int where "sign = (if S \<noteq> [] \<and> hd S = 0x2D then - 1 else 1)"
  define Z where "Z = parsed_digits v"
  have p: "parseInt v = (if Z = [] then NaN else to_number (of_int (sign * mathInt 0 Z)))"
    by (simp add: parseInt_def parsed_digits_def Let_def Z_def sign_def S_def)
  show "parseInt v = NaN \<longleftrightarrow> parsed_digits v = []"
    using p by (simp add: Z_def)
  have "list_all is_digit Z"
    by (auto simp: Z_def parsed_digits_def Let_def list_all_iff dest: set_takeWhileD)
  then have "mathInt 0 Z = 0 \<longleftrightarrow> set Z \<subseteq> {0x30}" using mathInt_zero [of Z 0] by simp
  moreover have "sign * mathInt 0 Z = 0 \<longleftrightarrow> mathInt 0 Z = 0" by (simp add: sign_def)
  ultimately show "parseInt v = Num 0 \<longleftrightarrow> parsed_digits v \<noteq> [] \<and> set (parsed_digits v) \<subseteq> {0x30}"
    using p to_number_zero_iff [of "sign * mathInt 0 Z"] by (simp add: Z_def)
qed

lemma js_or_default:
  "js_or x d = (if x = NaN \<or> x = Num 0 then d else x)"
  by (simp add: js_or_def truthy_number_def)

section \<open>The deletion loop\<close>

lemma delete_all_trace:
  "\<exists>rs. length rs = length mergedPRs \<and>
     snd (delete_all rt bc mergedPRs s) = snd s @ concat (map2 (deletion_events bc) mergedPRs rs)"
proof (induction mergedPRs arbitrary: s)
  case Nil
  then show ?case by simp
next
  case (Cons c cs)
  obtain r w2 where call: "deleteRef rt \<lparr>owner = owner bc, repo = repo bc, ref = branch_name c\<rparr> (fst s) = (r, w2)"
    by (cases "deleteRef rt \<lparr>owner = owner bc, repo = repo bc, ref = branch_name c\<rparr> (fst s)")
  define s3 where "s3 = (w2, snd s @ deletion_events bc c r)"
  have step: "delete_all rt bc (c # cs) s = delete_all rt bc cs s3"
    using call by (cases r) (simp_all add: s3_def deletion_events_def emit_def)
  from Cons.IH [of s3] obtain rs where rs: "length rs = length cs"
    "snd (delete_all rt bc cs s3) = snd s3 @ concat (map2 (deletion_events bc) cs rs)"
    by blast
  have "length (r # rs) = length (c # cs)" using rs by simp
  moreover have "snd (delete_all rt bc (c # cs) s)
      = snd s @ concat (map2 (deletion_events bc) (c # cs) (r # rs))"
    using rs step by (simp add: s3_def)
  ultimately show ?case by blast
qed

lemma deleted_refs_deletion_events:
  "length rs = length cs \<Longrightarrow>
     deleted_refs (concat (map2 (deletion_events bc) cs rs)) = map branch_name cs"
proof (induction cs arbitrary: rs)
  case Nil
  then show ?case by simp
next
  case (Cons c cs)
  then obtain r rs' where "rs = r # rs'" by (cases rs) auto
  with Cons show ?case by (simp add: deletion_events_def)
qed

lemma deleted_refs_delete_all:
  "deleted_refs (snd (delete_all rt bc mergedPRs s)) = deleted_refs (snd s) @ map branch_name mergedPRs"
  using delete_all_trace [of mergedPRs rt bc s] by (auto simp: deleted_refs_deletion_events)

lemma written_delete_all: "written (snd (delete_all rt bc cs s)) = written (snd s)"
proof -
  have "\<And>rs. length rs = length cs \<Longrightarrow> written (concat (map2 (deletion_events bc) cs rs)) = []"
  proof (induction cs)
    case Nil
    then show ?case by simp
  next
    case (Cons c cs)
    then obtain r rs' where "rs = r # rs'" by (cases rs) auto
    with Cons show ?case by (simp add: deletion_events_def)
  qed
  then show ?thesis using delete_all_trace [of cs rt bc s] by auto
qed


section \<open>Runs in the example world\<close>

lemma example_env_ok: "allRequiredVarsPresent example_env"
  by (simp add: allRequiredVarsPresent_def requiredEnvVars_def example_env_def truthy_string_def str_def)

lemma parseInt_undefined: "parseInt None = NaN"
  by (simp add: parseInt_def ToString_def str_def StrWhiteSpaceChar_def is_digit_def Let_def)

lemma example_limits:
  "AGE_IN_MONTHS example_env = Num 3" "MAX_COUNT example_env = Num 100"
  "PER_PAGE_COUNT example_env = Num 30"
  by (simp_all add: AGE_IN_MONTHS_def MAX_COUNT_def PER_PAGE_COUNT_def example_env_def str_def
      parseInt_undefined js_or_default)

lemma example_age: "monthsAge example_runtime 7776000000 (Some m) = Num 3"
  by (simp add: monthsAge_def parsed_merged_at_def example_runtime_def MONTH_IN_SECONDS_def)

lemma example_local_ok: "local_ok (example_pr n)"
  by (simp add: local_ok_def example_pr_def truthy_string_def array_includes_def
      FORBIDDEN_HEAD_REFS_def ALLOWED_BASE_REFS_def str_def)

lemma example_page:
  "process_page example_runtime bc (Num 3) [example_pr 1, example_pr 2] s =
     ([candidate_of example_runtime 7776000000 (example_pr 1),
       candidate_of example_runtime 7776000000 (example_pr 2)],
      (fst s, snd s @
        [Get_branch \<lparr>owner = owner bc, repo = repo bc, branch = str ''feature''\<rparr> (Fulfilled (Some \<lparr>message = None\<rparr>)),
         Get_branch \<lparr>owner = owner bc, repo = repo bc, branch = str ''feature''\<rparr> (Fulfilled (Some \<lparr>message = None\<rparr>))]))"
proof -
  have age: "age (candidate_of example_runtime 7776000000 (example_pr n)) = Num 3" for n
    by (simp add: candidate_of_def example_pr_def example_age)
  have head: "head_ref (example_pr n) = str ''feature''" for n by (simp add: example_pr_def)
  have rt: "getBranch example_runtime = (\<lambda>a w. (Fulfilled (Some \<lparr>message = None\<rparr>), w))"
    "Date_now example_runtime = (\<lambda>w. (7776000000, w))"
    by (simp_all add: example_runtime_def)
  show ?thesis
    by (simp add: process_page_def example_local_ok lookup_def rt head Let_def branch_missing_def
        to_candidate_def old_enough_def age)
qed

lemma example_discovery:
  "discovery (Suc (Suc n)) example_runtime example_env s =
     Done [candidate_of example_runtime 7776000000 (example_pr 1),
           candidate_of example_runtime 7776000000 (example_pr 2)]
       (fst s, snd s @
         [Log (Page_getting 1),
          Pulls_list (config example_env) (Fulfilled (Some [example_pr 1, example_pr 2])),
          Get_branch \<lparr>owner = Some (str ''acme''), repo = Some (str ''widgets''), branch = str ''feature''\<rparr>
            (Fulfilled (Some \<lparr>message = None\<rparr>)),
          Get_branch \<lparr>owner = Some (str ''acme''), repo = Some (str ''widgets''), branch = str ''feature''\<rparr>
            (Fulfilled (Some \<lparr>message = None\<rparr>)),
          Log (Processed 2),
          Log (Page_getting 2),
          Pulls_list ((config example_env)\<lparr>page := 2\<rparr>) (Fulfilled (Some [])),
          Log No_more_PRs])"
proof -
  have rt: "pulls_list example_runtime = (\<lambda>c w. (Fulfilled (Some (if page c = 1 then [example_pr 1, example_pr 2] else [])), w))"
    by (simp add: example_runtime_def)
  have bc: "owner (baseConfig example_env) = Some (str ''acme'')"
    "repo (baseConfig example_env) = Some (str ''widgets'')"
    by (simp_all add: baseConfig_def example_env_def str_def)
  have pg: "page (config example_env) = 1" by (simp add: config_def)
  show ?thesis
    by (simp add: discovery_def example_limits iteration_def rt pg example_page bc Let_def emit_def numeral_2_eq_2)
qed

lemma example_nuke_run:
  "deleted_refs (snd (snd (run (Suc (Suc n)) example_runtime example_env (str ''NUKE'') (str ''YES I DO'') (str ''NUKE'') ())))
     = [str ''feature'', str ''feature'']"
  by (simp add: run_def example_env_ok array_includes_def example_discovery after_discovery_def
      deleted_refs_delete_all candidate_of_def example_pr_def Let_def del: delete_all.simps)

section \<open>The confirmation gates\<close>

text \<open>
  C1. Whatever the world and the environment are and however many pages the discovery
  loop has gone through: if the trace of the run contains a call of \<^verbatim>\<open>deleteRef\<close>,
  then the mode typed was \<open>NUKE\<close>, the answer to the second prompt was \<open>YES I DO\<close> and
  the answer to the last prompt was \<open>NUKE\<close>. So in DryRun mode, and when either
  confirmation differs, nothing is deleted.
\<close>

theorem deletion_needs_both_confirmations:
  assumes "deleted_refs (snd (snd (run fuel rt env mode answer confirm w))) \<noteq> []"
  shows "mode = str ''NUKE'' \<and> answer = str ''YES I DO'' \<and> confirm = str ''NUKE''"
proof (rule ccontr)
  assume neg: "\<not> (mode = str ''NUKE'' \<and> answer = str ''YES I DO'' \<and> confirm = str ''NUKE'')"
  define m where "m = (if mode = [] then str ''DRYRUN'' else mode)"
  have m_nuke: "m = str ''NUKE'' \<longleftrightarrow> mode = str ''NUKE''"
    by (simp add: m_def)
  have disc: "deleted_refs (snd (result_state (discovery fuel rt env s))) = deleted_refs (snd s)" for s
    unfolding discovery_def using discover_silent by blast
  have after: "deleted_refs (snd (snd (after_discovery rt (baseConfig env) m confirm cs s))) = deleted_refs (snd s)"
    if "m \<noteq> str ''NUKE'' \<or> confirm \<noteq> str ''NUKE''" for cs s
    using that by (auto simp: after_discovery_def Let_def log_all_silent)
  have "deleted_refs (snd (snd (run fuel rt env mode answer confirm w))) = []"
  proof (cases "m = str ''NUKE'' \<and> answer \<noteq> str ''YES I DO''")
    case True
    then show ?thesis by (simp add: run_def Let_def m_def)
  next
    case False
    with neg m_nuke have nodel: "m \<noteq> str ''NUKE'' \<or> confirm \<noteq> str ''NUKE''" by auto
    define s2 where "s2 = emit [Log No_turning_back] (emit [Log (Mode_selected m),
      Question (if m = str ''DRYRUN'' then ''Hit ENTER to continue ''
                   else ''Are you sure you want to continue. Type YES I DO to continue? '')]
      (w, [Question ''Type DRYRUN (default) or NUKE to select a mode. DRYRUN does nothing, just logs: '']))"
    have s2: "deleted_refs (snd s2) = []" by (simp add: s2_def)
    show ?thesis
    proof (cases "discovery fuel rt env s2")
      case (Done cs s3)
      then show ?thesis using False disc [of s2] s2 after [OF nodel, of cs s3]
        by (simp add: run_def Let_def m_def [symmetric] s2_def [symmetric])
    next
      case (Thrown s3)
      then show ?thesis using False disc [of s2] s2
        by (simp add: run_def Let_def m_def [symmetric] s2_def [symmetric])
    next
      case (Out_of_fuel c cs s3)
      then show ?thesis using False disc [of s2] s2
        by (simp add: run_def Let_def m_def [symmetric] s2_def [symmetric])
    qed
  qed
  with assms show False by simp
qed

theorem deletion_needs_both_confirmations_witness:
  "deleted_refs (snd (snd (run 2 example_runtime example_env (str ''NUKE'') (str ''YES I DO'') (str ''NUKE'') ()))) \<noteq> []
   \<and> str ''NUKE'' = str ''NUKE'' \<and> str ''YES I DO'' = str ''YES I DO''"
  using deletion_needs_both_confirmations [of 2 example_runtime example_env "str ''NUKE''" "str ''YES I DO''" "str ''NUKE''" "()"]
    example_nuke_run [of 0]
  by (simp add: numeral_2_eq_2)

text \<open>
  C2. In the example world: an unknown mode and a wrong answer to the second prompt
  end the process with exit code 1, but a wrong answer to the last prompt ends it with
  exit code 0, the code of \<^verbatim>\<open>process.exit()\<close> without an argument.
\<close>

theorem rejected_last_confirmation_exits_with_0:
  "exit_code (fst (run 2 example_runtime example_env (str ''nuke'') (str ''YES I DO'') (str ''NUKE'') ())) = Some 1
   \<and> exit_code (fst (run 2 example_runtime example_env (str ''NUKE'') (str ''yes i do'') (str ''NUKE'') ())) = Some 1
   \<and> exit_code (fst (run 2 example_runtime example_env (str ''NUKE'') (str ''YES I DO'') (str ''nuke'') ())) = Some 0
   \<and> fst (run 2 example_runtime example_env (str ''NUKE'') (str ''YES I DO'') (str ''nuke'') ()) = Process_exit None"
proof -
  have ne: "str ''nuke'' \<noteq> str ''NUKE''" "str ''nuke'' \<noteq> str ''DRYRUN''" "str ''nuke'' \<noteq> []"
    "str ''yes i do'' \<noteq> str ''YES I DO''"
    by (simp_all add: str_def)
  have two: "(2::nat) = Suc (Suc 0)" by simp
  show ?thesis
    unfolding two
    by (simp add: run_def example_env_ok array_includes_def ne example_discovery after_discovery_def Let_def)
qed

section \<open>The filter pipeline\<close>

text \<open>
  C4. Read back as pull requests, the candidates that one page yields are a
  subsequence of the pull requests of the page that have a merge timestamp, a head branch
  outside the forbidden list and a base branch in the allowed list: a pull request that
  fails one of the three checks yields no candidate, whatever its other fields are, and
  every candidate comes from a pull request of the page that passes the three.
\<close>

theorem candidates_pass_the_local_checks:
  "subseq (map source_of (fst (process_page rt bc ageInMonths data s)))
     (filter (\<lambda>pr. pr_merged_at pr \<noteq> None \<and> head_ref pr \<notin> set FORBIDDEN_HEAD_REFS
                \<and> base_ref pr \<in> set ALLOWED_BASE_REFS) data)
   \<and> list_all (\<lambda>c. source_of c \<in> set data \<and> merged_at c \<noteq> None
                \<and> branch_name c \<notin> set FORBIDDEN_HEAD_REFS
                \<and> base_branch_name c \<in> set ALLOWED_BASE_REFS)
        (fst (process_page rt bc ageInMonths data s))"
proof -
  define Q :: "pull_request \<Rightarrow> bool" where "Q = (\<lambda>pr. pr_merged_at pr \<noteq> None \<and> head_ref pr \<notin> set FORBIDDEN_HEAD_REFS
                \<and> base_ref pr \<in> set ALLOWED_BASE_REFS)"
  have imp: "local_ok pr \<Longrightarrow> Q pr" for pr
    by (auto simp: local_ok_def Q_def truthy_string_def array_includes_def split: option.splits)
  then have "filter local_ok data = filter local_ok (filter Q data)"
    by (auto intro: filter_cong)
  then have "subseq (filter local_ok data) (filter Q data)"
    by (metis subseq_filter_left)
  with process_page_sources [of rt bc ageInMonths data s]
  have sub: "subseq (map source_of (fst (process_page rt bc ageInMonths data s))) (filter Q data)"
    by (rule subseq_order.order_trans)
  have "source_of c \<in> set data \<and> Q (source_of c)"
    if "c \<in> set (fst (process_page rt bc ageInMonths data s))" for c
  proof -
    from that have "source_of c \<in> set (map source_of (fst (process_page rt bc ageInMonths data s)))"
      by simp
    with sub have "source_of c \<in> set (filter Q data)" by (rule subseq_in_set)
    then show ?thesis by simp
  qed
  then have "list_all (\<lambda>c. source_of c \<in> set data \<and> Q (source_of c))
      (fst (process_page rt bc ageInMonths data s))"
    by (simp add: list_all_iff)
  then show ?thesis using sub by (simp add: Q_def source_of_def)
qed

theorem candidates_pass_the_local_checks_witness:
  "length (fst (process_page example_runtime (baseConfig example_env) (Num 3) [example_pr 1, example_pr 2] ((), []))) = 2
   \<and> list_all (\<lambda>c. source_of c \<in> set [example_pr 1, example_pr 2] \<and> merged_at c \<noteq> None
                \<and> branch_name c \<notin> set FORBIDDEN_HEAD_REFS
                \<and> base_branch_name c \<in> set ALLOWED_BASE_REFS)
        (fst (process_page example_runtime (baseConfig example_env) (Num 3) [example_pr 1, example_pr 2] ((), [])))"
  using candidates_pass_the_local_checks [of example_runtime "baseConfig example_env" "Num 3"
      "[example_pr 1, example_pr 2]" "((), [])"]
  by (simp add: example_page)





section \<open>The limits read from the environment\<close>

text \<open>
  C10. \<open>parseInt\<close> gives \<open>NaN\<close> exactly when it reads no digit (in particular for a
  variable that is not set), and zero exactly when every digit it reads is \<open>0\<close>. In both
  cases each of the three limits is its default, 3, 100 and 30; so none of the limits is
  ever zero or \<open>NaN\<close>.
\<close>

theorem zero_or_unparsable_limit_is_the_default:
  "(parseInt v = NaN \<longleftrightarrow> parsed_digits v = [])
   \<and> (parseInt v = Num 0 \<longleftrightarrow> parsed_digits v \<noteq> [] \<and> set (parsed_digits v) \<subseteq> {0x30})
   \<and> parseInt None = NaN
   \<and> (parseInt (env (str ''AGE_IN_MONTHS'')) = NaN \<or> parseInt (env (str ''AGE_IN_MONTHS'')) = Num 0
        \<longrightarrow> AGE_IN_MONTHS env = Num 3)
   \<and> (parseInt (env (str ''MAX_COUNT'')) = NaN \<or> parseInt (env (str ''MAX_COUNT'')) = Num 0
        \<longrightarrow> MAX_COUNT env = Num 100)
   \<and> (parseInt (env (str ''PER_PAGE_COUNT'')) = NaN \<or> parseInt (env (str ''PER_PAGE_COUNT'')) = Num 0
        \<longrightarrow> PER_PAGE_COUNT env = Num 30)
   \<and> AGE_IN_MONTHS env \<noteq> Num 0 \<and> AGE_IN_MONTHS env \<noteq> NaN
   \<and> MAX_COUNT env \<noteq> Num 0 \<and> MAX_COUNT env \<noteq> NaN
   \<and> PER_PAGE_COUNT env \<noteq> Num 0 \<and> PER_PAGE_COUNT env \<noteq> NaN"
  using parseInt_digits [of v] parseInt_undefined
  by (simp add: AGE_IN_MONTHS_def MAX_COUNT_def PER_PAGE_COUNT_def js_or_default)

theorem zero_or_unparsable_limit_is_the_default_witness:
  "parseInt (zero_env (str ''AGE_IN_MONTHS'')) = Num 0
   \<and> parseInt (zero_env (str ''MAX_COUNT'')) = NaN
   \<and> parseInt (zero_env (str ''PER_PAGE_COUNT'')) = Num 0
   \<and> AGE_IN_MONTHS zero_env = Num 3 \<and> MAX_COUNT zero_env = Num 100 \<and> PER_PAGE_COUNT zero_env = Num 30"
proof -
  have d: "parsed_digits (zero_env (str ''AGE_IN_MONTHS'')) = str ''0''"
    "parsed_digits (zero_env (str ''MAX_COUNT'')) = []"
    "parsed_digits (zero_env (str ''PER_PAGE_COUNT'')) = str ''00''"
    by (simp_all add: zero_env_def parsed_digits_def ToString_def str_def StrWhiteSpaceChar_def
        is_digit_def Let_def)
  have p: "parseInt (zero_env (str ''AGE_IN_MONTHS'')) = Num 0"
    "parseInt (zero_env (str ''MAX_COUNT'')) = NaN"
    "parseInt (zero_env (str ''PER_PAGE_COUNT'')) = Num 0"
    using zero_or_unparsable_limit_is_the_default [of "zero_env (str ''AGE_IN_MONTHS'')" zero_env]
      zero_or_unparsable_limit_is_the_default [of "zero_env (str ''MAX_COUNT'')" zero_env]
      zero_or_unparsable_limit_is_the_default [of "zero_env (str ''PER_PAGE_COUNT'')" zero_env]
    by (simp_all add: d) (simp_all add: str_def)
  then show ?thesis
    using zero_or_unparsable_limit_is_the_default [of None zero_env] by simp
qed

end
